theory Spec2Isabelle
  imports Complex_Main "HOL-Library.Multiset" "HOL-Library.Product_Lexorder"
begin

section \<open>Domain model\<close>

text \<open>
  The dataclass \<open>Product\<close>. The source field \<open>id\<close> is called \<open>prod_id\<close> here. Python's
  unbounded integers are \<open>int\<close>; the price, a Python float holding a decimal amount, is an
  exact rational, so rounding of binary floating point is outside this model.
\<close>

record product =
  prod_id :: int
  name :: string
  price :: rat
  quantity :: int

text \<open>
  \<open>Product\<close> objects are shared: the linked list of \<open>Node\<close>s and the dictionary
  \<open>index\<close> reach the same object, and \<open>BillingSystem\<close> mutates the object that
  \<open>find\<close> hands out. So the objects live in a store, addressed by references. One cell
  stands for a \<open>Node\<close> together with its \<open>Product\<close>; the \<open>next\<close> pointers from
  \<open>head\<close> to \<open>tail\<close> are the order of \<open>chain\<close>; \<open>next_ref\<close> is the allocator.
\<close>

type_synonym ref = nat

record inventory =
  store :: "ref \<rightharpoonup> product"
  chain :: "ref list"
  index :: "int \<rightharpoonup> ref"
  low_stock_heap :: "(int \<times> int) list"
  next_ref :: ref

subsection \<open>The library module heapq\<close>

text \<open>
  \<open>heapq\<close> belongs to Python's standard library, not to this program, and is modelled by
  its contract: the heap is a bag of items, \<open>heappush\<close> adds one item, \<open>heappop\<close> removes
  and returns a smallest item (tuples compare lexicographically) and raises \<open>IndexError\<close>,
  here \<open>None\<close>, on an empty heap. The position of an item inside the list has no meaning.
\<close>

definition heappush :: "'a list \<Rightarrow> 'a \<Rightarrow> 'a list" where
  "heappush h x = h @ [x]"

fun heappop :: "('a::linorder) list \<Rightarrow> ('a \<times> 'a list) option" where
  "heappop [] = None"
| "heappop (x # xs) = (let m = fold min xs x in Some (m, remove1 m (x # xs)))"

subsection \<open>Dictionaries that keep insertion order\<close>

text \<open>
  The cart is a Python \<open>dict\<close>, whose \<open>items()\<close> come in insertion order: an association
  list. Assigning to a present key keeps its place, assigning to a new key appends.
\<close>

definition dict_get :: "('k \<times> 'v) list \<Rightarrow> 'k \<Rightarrow> 'v \<Rightarrow> 'v" where
  "dict_get d k dflt = (case map_of d k of None \<Rightarrow> dflt | Some v \<Rightarrow> v)"

fun dict_set :: "'k \<Rightarrow> 'v \<Rightarrow> ('k \<times> 'v) list \<Rightarrow> ('k \<times> 'v) list" where
  "dict_set k v [] = [(k, v)]"
| "dict_set k v ((k', v') # d) = (if k' = k then (k, v) # d else (k', v') # dict_set k v d)"

definition dict_pop :: "'k \<Rightarrow> ('k \<times> 'v) list \<Rightarrow> ('k \<times> 'v) list" where
  "dict_pop k d = filter (\<lambda>e. fst e \<noteq> k) d"

section \<open>Inventory\<close>

definition empty_inventory :: inventory where
  "empty_inventory =
     \<lparr>store = Map.empty, chain = [], index = Map.empty, low_stock_heap = [], next_ref = 0\<rparr>"

definition add_product :: "inventory \<Rightarrow> product \<Rightarrow> inventory \<times> bool" where
  "add_product iv pr =
     (if index iv (prod_id pr) \<noteq> None then (iv, False)
      else
        let node = next_ref iv
        in (iv\<lparr>store := (store iv)(node \<mapsto> pr),
                 chain := chain iv @ [node],
                 index := (index iv)(prod_id pr \<mapsto> node),
                 low_stock_heap := heappush (low_stock_heap iv) (quantity pr, prod_id pr),
                 next_ref := Suc node\<rparr>, True))"

definition to_list :: "inventory \<Rightarrow> product list" where
  "to_list iv = List.map_filter (store iv) (chain iv)"

text \<open>
  \<open>find\<close> returns the \<open>Product\<close> object itself: its reference, through which the caller
  mutates it, together with its current fields.
\<close>

definition find_product :: "inventory \<Rightarrow> int \<Rightarrow> (ref \<times> product) option" where
  "find_product iv pid =
     (case index iv pid of
        None \<Rightarrow> None
      | Some node \<Rightarrow> (case store iv node of None \<Rightarrow> None | Some pr \<Rightarrow> Some (node, pr)))"

text \<open>The attribute assignment \<open>obj.quantity = q\<close> through a reference.\<close>

definition set_quantity :: "inventory \<Rightarrow> ref \<Rightarrow> int \<Rightarrow> inventory" where
  "set_quantity iv node q =
     (case store iv node of
        None \<Rightarrow> iv
      | Some pr \<Rightarrow> iv\<lparr>store := (store iv)(node \<mapsto> pr\<lparr>quantity := q\<rparr>)\<rparr>)"

definition update_quantity :: "inventory \<Rightarrow> int \<Rightarrow> int \<Rightarrow> inventory" where
  "update_quantity iv pid new_qty =
     (case index iv pid of
        None \<Rightarrow> iv
      | Some node \<Rightarrow>
          let iv1 = set_quantity iv node new_qty
          in iv1\<lparr>low_stock_heap := heappush (low_stock_heap iv1) (new_qty, pid)\<rparr>)"

text \<open>
  The \<open>while\<close> loop of \<open>k_lowest_stock\<close>, with its locals \<open>results\<close>, \<open>seen\<close> and
  \<open>popped\<close>. Every round pops one heap item, so the heap's length is the measure.
\<close>

function k_lowest_loop ::
  "inventory \<Rightarrow> int \<Rightarrow> product list \<Rightarrow> int \<Rightarrow> (int \<times> int) list
     \<Rightarrow> inventory \<times> product list \<times> (int \<times> int) list" where
  "k_lowest_loop iv k results seen popped =
     (if low_stock_heap iv \<noteq> [] \<and> seen < k then
        (case heappop (low_stock_heap iv) of
           None \<Rightarrow> (iv, results, popped)
         | Some ((qty, pid), h) \<Rightarrow>
             let iv1 = iv\<lparr>low_stock_heap := h\<rparr>;
                 popped1 = popped @ [(qty, pid)]
             in (case find_product iv1 pid of
                   None \<Rightarrow> k_lowest_loop iv1 k results seen popped1
                 | Some (node, pr) \<Rightarrow>
                     if quantity pr = qty
                     then k_lowest_loop iv1 k (results @ [pr]) (seen + 1) popped1
                     else k_lowest_loop iv1 k results seen popped1))
      else (iv, results, popped))"
  by pat_completeness auto

termination
proof -
  have min_in: "fold min xs x \<in> set (x # xs)" for x :: "int \<times> int" and xs
    by (induction xs arbitrary: x) (auto simp: min_def)
  have pop_len: "length h' < length h" if "heappop h = Some (m, h')"
    for h h' :: "(int \<times> int) list" and m
  proof (cases h)
    case Nil
    with that show ?thesis by simp
  next
    case (Cons x xs)
    with that have "h' = remove1 (fold min xs x) (x # xs)"
      by (auto simp: Let_def)
    with Cons min_in [of xs x] show ?thesis
      by (simp only: length_remove1) auto
  qed
  show ?thesis
    by (relation "measure (\<lambda>(iv, k, results, seen, popped). length (low_stock_heap iv))")
      (auto dest: pop_len)
qed

definition k_lowest_stock :: "inventory \<Rightarrow> int \<Rightarrow> inventory \<times> product list" where
  "k_lowest_stock iv k =
     (let (iv1, results, popped) = k_lowest_loop iv k [] 0 []
      in (iv1\<lparr>low_stock_heap := fold (\<lambda>item h. heappush h item) popped (low_stock_heap iv1)\<rparr>,
          results))"

section \<open>Billing\<close>

text \<open>
  \<open>BillingSystem\<close> holds a reference to the one \<open>Inventory\<close> of the application, so the
  inventory is a field of the system state. The undo stack is a Python list used as a
  stack: \<open>append\<close> adds at the end and \<open>pop\<close> takes from the end.
\<close>

record billing_system =
  inventory :: inventory
  cart :: "(int \<times> int) list"
  undo_stack :: "(string \<times> int \<times> int) list"
  customer_name :: string
  subtotal :: rat
  discount :: rat

definition new_system :: billing_system where
  "new_system =
     \<lparr>inventory = empty_inventory, cart = [], undo_stack = [], customer_name = [],
      subtotal = 0, discount = 0\<rparr>"

text \<open>
  The messages \<open>add_to_cart\<close> returns, as values: \<open>NotFound\<close> is "Product not found.",
  \<open>InvalidQuantity\<close> is "Quantity should be positive.", \<open>InsufficientStock\<close> is
  "Not enough stock available.", and \<open>Added n p q\<close> is the message "Added: ..." built
  from the product's name, its price and the quantity.
\<close>

datatype add_result = NotFound | InvalidQuantity | InsufficientStock | Added string rat int

definition add_to_cart :: "billing_system \<Rightarrow> int \<Rightarrow> int \<Rightarrow> billing_system \<times> add_result" where
  "add_to_cart s pid qty =
     (case find_product (inventory s) pid of
        None \<Rightarrow> (s, NotFound)
      | Some (node, pr) \<Rightarrow>
          if qty \<le> 0 then (s, InvalidQuantity)
          else if qty > quantity pr then (s, InsufficientStock)
          else
            let q = quantity pr - qty;
                iv1 = set_quantity (inventory s) node q;
                cart1 = dict_set pid (dict_get (cart s) pid 0 + qty) (cart s);
                iv2 = update_quantity iv1 pid q;
                undo1 = undo_stack s @ [(''add'', pid, qty)]
            in (s\<lparr>inventory := iv2, cart := cart1, undo_stack := undo1\<rparr>,
                Added (name pr) (price pr) qty))"

text \<open>
  The outcomes of \<open>undo_last\<close>: \<open>EmptyUndoLog\<close> is "Nothing to undo.", \<open>ProductMissing\<close>
  is "Unexpected error: product missing.", \<open>Undone q n\<close> is "Undone: returned q of n.",
  \<open>UnknownAction\<close> is "Unknown action.", and \<open>KeyError\<close> is the exception that
  \<open>self.cart[pid] -= qty\<close> raises when the cart has no such key. The pop of the stack
  and the update of the inventory happen before that statement and stay in effect.
\<close>

datatype undo_result = EmptyUndoLog | ProductMissing | Undone int string | UnknownAction | KeyError

definition undo_last :: "billing_system \<Rightarrow> billing_system \<times> undo_result" where
  "undo_last s =
     (if undo_stack s = [] then (s, EmptyUndoLog)
      else
        let (action, pid, qty) = last (undo_stack s);
            s1 = s\<lparr>undo_stack := butlast (undo_stack s)\<rparr>
        in if action = ''add'' then
             (case find_product (inventory s1) pid of
                None \<Rightarrow> (s1, ProductMissing)
              | Some (node, pr) \<Rightarrow>
                  let q = quantity pr + qty;
                      iv1 = set_quantity (inventory s1) node q;
                      iv2 = update_quantity iv1 pid q;
                      s2 = s1\<lparr>inventory := iv2\<rparr>
                  in (case map_of (cart s2) pid of
                        None \<Rightarrow> (s2, KeyError)
                      | Some c \<Rightarrow>
                          let cart1 = dict_set pid (c - qty) (cart s2);
                              cart2 = (if dict_get cart1 pid 0 \<le> 0 then dict_pop pid cart1
                                       else cart1)
                          in (s2\<lparr>cart := cart2\<rparr>, Undone qty (name pr))))
           else (s1, UnknownAction))"

text \<open>
  The loop of \<open>compute_totals\<close> over \<open>cart.items()\<close>, with \<open>self.subtotal\<close> as the
  accumulator; an entry whose product is not found is skipped.
\<close>

fun subtotal_loop :: "inventory \<Rightarrow> (int \<times> int) list \<Rightarrow> rat \<Rightarrow> rat" where
  "subtotal_loop iv [] acc = acc"
| "subtotal_loop iv ((pid, qty) # items) acc =
     (case find_product iv pid of
        None \<Rightarrow> subtotal_loop iv items acc
      | Some (node, pr) \<Rightarrow> subtotal_loop iv items (acc + price pr * of_int qty))"

text \<open>The factors \<open>0.10\<close> and \<open>0.05\<close> are the rationals \<open>10 / 100\<close> and \<open>5 / 100\<close>.\<close>

definition compute_totals :: "billing_system \<Rightarrow> billing_system" where
  "compute_totals s =
     (let sub = subtotal_loop (inventory s) (cart s) 0;
          disc = (if sub > 500 then (10 / 100) * sub
                  else if sub > 200 then (5 / 100) * sub
                  else 0)
      in s\<lparr>subtotal := sub, discount := disc\<rparr>)"

text \<open>
  \<open>checkout_summary\<close> renders a bill as text. The model keeps the data the text is made
  of: the customer, one line (name cut to 20 characters, quantity, price, line total) per
  cart entry whose product is found, the subtotal, the discount and the total. The bill's
  date comes from the clock and is left out.
\<close>

record bill =
  bill_customer :: string
  bill_lines :: "(string \<times> int \<times> rat \<times> rat) list"
  bill_subtotal :: rat
  bill_discount :: rat
  bill_total :: rat

fun bill_items :: "inventory \<Rightarrow> (int \<times> int) list \<Rightarrow> (string \<times> int \<times> rat \<times> rat) list" where
  "bill_items iv [] = []"
| "bill_items iv ((pid, qty) # items) =
     (case find_product iv pid of
        None \<Rightarrow> bill_items iv items
      | Some (node, pr) \<Rightarrow>
          (take 20 (name pr), qty, price pr, price pr * of_int qty) # bill_items iv items)"

definition checkout_summary :: "billing_system \<Rightarrow> billing_system \<times> bill" where
  "checkout_summary s =
     (let s1 = compute_totals s;
          total = subtotal s1 - discount s1
      in (s1, \<lparr>bill_customer = customer_name s1,
               bill_lines = bill_items (inventory s1) (cart s1),
               bill_subtotal = subtotal s1,
               bill_discount = discount s1,
               bill_total = total\<rparr>))"

definition clear :: "billing_system \<Rightarrow> billing_system" where
  "clear s = s\<lparr>cart := [], undo_stack := [], customer_name := [], subtotal := 0, discount := 0\<rparr>"

section \<open>The handlers of the application\<close>

text \<open>
  The handlers \<open>_on_checkout\<close> and \<open>_on_clear_cart\<close> of \<open>App\<close>, without their widgets and
  dialogs. Both end with \<open>_refresh_cart_table_and_totals\<close>, which calls
  \<open>compute_totals\<close>. \<open>EmptyCart\<close> is the warning "No items in the cart.".
\<close>

datatype checkout_error = EmptyCart

definition on_checkout :: "billing_system \<Rightarrow> billing_system \<times> (checkout_error + bill)" where
  "on_checkout s =
     (if cart s = [] then (s, Inl EmptyCart)
      else
        let (s1, summary) = checkout_summary s;
            s2 = clear s1
        in (compute_totals s2, Inr summary))"

text \<open>The loop of \<open>_on_clear_cart\<close> over a copy of the cart's items.\<close>

fun restore_loop :: "inventory \<Rightarrow> (int \<times> int) list \<Rightarrow> inventory" where
  "restore_loop iv [] = iv"
| "restore_loop iv ((pid, qty) # items) =
     (case find_product iv pid of
        None \<Rightarrow> restore_loop iv items
      | Some (node, pr) \<Rightarrow>
          let q = quantity pr + qty;
              iv1 = set_quantity iv node q
          in restore_loop (update_quantity iv1 pid q) items)"

definition on_clear_cart :: "billing_system \<Rightarrow> billing_system" where
  "on_clear_cart s =
     (let s1 = s\<lparr>inventory := restore_loop (inventory s) (cart s)\<rparr>
      in compute_totals (clear s1))"

text \<open>\<open>_on_add_product\<close> and \<open>_on_show_low_stock\<close> call the inventory of the application.\<close>

definition on_add_product :: "billing_system \<Rightarrow> product \<Rightarrow> billing_system \<times> bool" where
  "on_add_product s pr =
     (let (iv, ok) = add_product (inventory s) pr in (s\<lparr>inventory := iv\<rparr>, ok))"

definition on_show_low_stock :: "billing_system \<Rightarrow> int \<Rightarrow> billing_system \<times> product list" where
  "on_show_low_stock s k =
     (let (iv, prods) = k_lowest_stock (inventory s) k in (s\<lparr>inventory := iv\<rparr>, prods))"

section \<open>Reachable states\<close>

text \<open>
  The states the application reaches from its start through the operations above, in any
  order and with any arguments.
\<close>

inductive reachable :: "billing_system \<Rightarrow> bool" where
  start: "reachable new_system"
| add_product: "reachable s \<Longrightarrow> reachable (fst (on_add_product s pr))"
| add_to_cart: "reachable s \<Longrightarrow> reachable (fst (add_to_cart s pid qty))"
| undo_last: "reachable s \<Longrightarrow> reachable (fst (undo_last s))"
| compute_totals: "reachable s \<Longrightarrow> reachable (compute_totals s)"
| checkout: "reachable s \<Longrightarrow> reachable (fst (on_checkout s))"
| clear_cart: "reachable s \<Longrightarrow> reachable (on_clear_cart s)"
| low_stock: "reachable s \<Longrightarrow> reachable (fst (on_show_low_stock s k))"
| customer: "reachable s \<Longrightarrow> reachable (s\<lparr>customer_name := n\<rparr>)"

section \<open>Undoing every reservation\<close>

text \<open>
  This function is not in the source. It follows the specification's words for what
  clearing the cart is equivalent to, "replaying undo for every entry": it calls
  \<open>undo_last\<close> until the undo stack is empty.
\<close>

function spec_replay_undo :: "billing_system \<Rightarrow> billing_system" where
  "spec_replay_undo s =
     (if undo_stack s = [] then s else spec_replay_undo (fst (undo_last s)))"
  by pat_completeness auto

termination
proof (relation "measure (\<lambda>s. length (undo_stack s))")
  show "wf (measure (\<lambda>s. length (undo_stack s)))"
    by simp
  show "(fst (undo_last s), s) \<in> measure (\<lambda>s. length (undo_stack s))"
    if "undo_stack s \<noteq> []" for s
  proof -
    have "undo_stack (fst (undo_last s)) = butlast (undo_stack s)"
      using that
      by (simp add: undo_last_def Let_def split_beta split: option.splits)
    with that show ?thesis by simp
  qed
qed

section \<open>Concrete states\<close>

text \<open>
  The product of the specification's scenario, the state after adding it to a new
  system, and the state after then reserving 10 units of it.
\<close>

definition rice :: product where
  "rice = \<lparr>prod_id = 1, name = ''Rice'', price = 50, quantity = 100\<rparr>"

definition rice_stocked :: billing_system where
  "rice_stocked = fst (on_add_product new_system rice)"

definition rice_reserved :: billing_system where
  "rice_reserved = fst (add_to_cart rice_stocked 1 10)"

text \<open>
  A second product, the system stocked with both, and the state after reserving 10 units
  of the first product and undoing that.
\<close>

definition dal :: product where
  "dal = \<lparr>prod_id = 2, name = ''Dal'', price = 80, quantity = 200\<rparr>"

definition rice_dal_stocked :: billing_system where
  "rice_dal_stocked = fst (on_add_product rice_stocked dal)"

definition rice_returned :: billing_system where
  "rice_returned = fst (undo_last (fst (add_to_cart rice_dal_stocked 1 10)))"


section \<open>Invariants\<close>

text \<open>
  What the representation guarantees: a reference in the index points to an allocated
  cell whose product carries the indexed id, and cells from the allocator's next reference
  on are free.
\<close>

definition wf_inventory :: "inventory \<Rightarrow> bool" where
  "wf_inventory iv \<longleftrightarrow>
     (\<forall>pid node. index iv pid = Some node \<longrightarrow>
        (\<exists>pr. store iv node = Some pr \<and> prod_id pr = pid))
     \<and> (\<forall>node. next_ref iv \<le> node \<longrightarrow> store iv node = None)"

text \<open>The low-stock heap holds a snapshot with the current quantity of every product.\<close>

definition heap_covers :: "inventory \<Rightarrow> bool" where
  "heap_covers iv \<longleftrightarrow>
     (\<forall>pid node pr. find_product iv pid = Some (node, pr) \<longrightarrow>
        (quantity pr, pid) \<in> set (low_stock_heap iv))"

text \<open>
  The snapshot \<open>(qty, pid)\<close> is current when the product exists and has that quantity;
  this is the test \<open>k_lowest_stock\<close> applies to a popped item.
\<close>

definition current :: "inventory \<Rightarrow> int \<times> int \<Rightarrow> product option" where
  "current iv e =
     (case find_product iv (snd e) of
        None \<Rightarrow> None
      | Some (node, pr) \<Rightarrow> if quantity pr = fst e then Some pr else None)"

text \<open>
  The cart has one entry per key and only positive quantities; every action on the undo
  stack is an "add" of a positive quantity of an indexed product; and the cart's quantity
  of a product is the sum of the quantities the stack records for it.
\<close>

definition reserved :: "(string \<times> int \<times> int) list \<Rightarrow> int \<Rightarrow> int" where
  "reserved us pid = (\<Sum>(a, p, q) \<leftarrow> us. if p = pid then q else 0)"

definition cart_ok :: "(int \<times> int) list \<Rightarrow> bool" where
  "cart_ok c \<longleftrightarrow> distinct (map fst c) \<and> (\<forall>e \<in> set c. 0 < snd e)"

definition undo_ok :: "inventory \<Rightarrow> (string \<times> int \<times> int) list \<Rightarrow> bool" where
  "undo_ok iv us \<longleftrightarrow>
     (\<forall>e \<in> set us. fst e = ''add'' \<and> 0 < snd (snd e) \<and> index iv (fst (snd e)) \<noteq> None)"

definition balanced :: "(int \<times> int) list \<Rightarrow> (string \<times> int \<times> int) list \<Rightarrow> bool" where
  "balanced c us \<longleftrightarrow> (\<forall>pid. dict_get c pid 0 = reserved us pid)"

definition sys_inv :: "billing_system \<Rightarrow> bool" where
  "sys_inv s \<longleftrightarrow>
     wf_inventory (inventory s) \<and> heap_covers (inventory s) \<and> cart_ok (cart s)
     \<and> undo_ok (inventory s) (undo_stack s) \<and> balanced (cart s) (undo_stack s)"

section \<open>Facts about the building blocks\<close>

lemmas eval_defs =
  rice_def rice_stocked_def rice_reserved_def new_system_def empty_inventory_def
  on_add_product_def add_product_def add_to_cart_def undo_last_def find_product_def
  set_quantity_def update_quantity_def heappush_def dict_get_def dict_pop_def
  compute_totals_def Let_def

lemma map_of_dict_set: "map_of (dict_set k v d) = (map_of d)(k \<mapsto> v)"
  by (induction d) auto

text \<open>
  Writing a quantity into the object that \<open>find\<close> returned and then calling
  \<open>update_quantity\<close> with the same value changes one store cell and adds one heap item.
\<close>

lemma restock_eq:
  assumes "find_product iv pid = Some (node, pr)"
  shows "update_quantity (set_quantity iv node q) pid q =
           iv\<lparr>store := (store iv)(node \<mapsto> pr\<lparr>quantity := q\<rparr>),
              low_stock_heap := low_stock_heap iv @ [(q, pid)]\<rparr>"
  using assms
  by (auto simp: find_product_def set_quantity_def update_quantity_def heappush_def Let_def
      split: option.splits)


subsection \<open>The inventory\<close>

lemma find_product_heap [simp]:
  "find_product (iv\<lparr>low_stock_heap := h\<rparr>) pid = find_product iv pid"
  by (simp add: find_product_def split: option.splits)

lemma wf_inventory_heap [simp]:
  "wf_inventory (iv\<lparr>low_stock_heap := h\<rparr>) = wf_inventory iv"
  by (simp add: wf_inventory_def)

lemma find_product_index:
  "find_product iv pid = Some (node, pr) \<Longrightarrow> index iv pid = Some node \<and> store iv node = Some pr"
  by (auto simp: find_product_def split: option.splits)

lemma wf_find_id:
  "wf_inventory iv \<Longrightarrow> find_product iv pid = Some (node, pr) \<Longrightarrow> prod_id pr = pid"
  by (fastforce simp: wf_inventory_def dest: find_product_index)

lemma wf_index_found:
  "wf_inventory iv \<Longrightarrow> index iv pid = Some node \<Longrightarrow> \<exists>pr. find_product iv pid = Some (node, pr)"
  by (fastforce simp: wf_inventory_def find_product_def)

lemma wf_same_node:
  assumes "wf_inventory iv" "index iv pid = Some node" "index iv pid' = Some node"
  shows "pid' = pid"
proof -
  from assms(1,2) obtain pr where "store iv node = Some pr" "prod_id pr = pid"
    unfolding wf_inventory_def by blast
  moreover from assms(1,3) obtain pr' where "store iv node = Some pr'" "prod_id pr' = pid'"
    unfolding wf_inventory_def by blast
  ultimately show ?thesis by simp
qed

lemma find_restock:
  assumes "wf_inventory iv" "find_product iv pid = Some (node, pr)"
  shows "find_product (iv\<lparr>store := (store iv)(node \<mapsto> pr\<lparr>quantity := q\<rparr>)\<rparr>) pid'
           = (if pid' = pid then Some (node, pr\<lparr>quantity := q\<rparr>) else find_product iv pid')"
proof -
  from assms(2) have idx: "index iv pid = Some node"
    by (simp add: find_product_index)
  show ?thesis
  proof (cases "pid' = pid")
    case True
    with idx show ?thesis by (simp add: find_product_def)
  next
    case False
    with wf_same_node [OF assms(1) idx] have "index iv pid' \<noteq> Some node"
      by blast
    with False show ?thesis
      by (auto simp: find_product_def split: option.splits)
  qed
qed

lemma wf_restock:
  assumes "wf_inventory iv" "find_product iv pid = Some (node, pr)"
  shows "wf_inventory (iv\<lparr>store := (store iv)(node \<mapsto> pr\<lparr>quantity := q\<rparr>)\<rparr>)"
proof -
  from assms(2) have cell: "store iv node = Some pr"
    by (simp add: find_product_index)
  have "\<exists>pr'. ((store iv)(node \<mapsto> pr\<lparr>quantity := q\<rparr>)) n = Some pr' \<and> prod_id pr' = p"
    if "index iv p = Some n" for p n
  proof -
    from assms(1) that obtain pr' where "store iv n = Some pr'" "prod_id pr' = p"
      unfolding wf_inventory_def by blast
    with cell show ?thesis by (cases "n = node") auto
  qed
  moreover have "((store iv)(node \<mapsto> pr\<lparr>quantity := q\<rparr>)) n = None" if "next_ref iv \<le> n" for n
  proof -
    from assms(1) that have "store iv n = None"
      unfolding wf_inventory_def by blast
    with cell show ?thesis by auto
  qed
  ultimately show ?thesis
    unfolding wf_inventory_def by simp
qed

lemma heap_covers_restock:
  assumes "wf_inventory iv" "heap_covers iv" "find_product iv pid = Some (node, pr)"
  shows "heap_covers (iv\<lparr>store := (store iv)(node \<mapsto> pr\<lparr>quantity := q\<rparr>),
                         low_stock_heap := low_stock_heap iv @ [(q, pid)]\<rparr>)"
  using assms(2) unfolding heap_covers_def
  by (auto simp: find_restock [OF assms(1,3)] split: if_splits)

lemma find_add_product:
  assumes "wf_inventory iv" "index iv (prod_id pr) = None"
  shows "find_product (fst (add_product iv pr)) pid
           = (if pid = prod_id pr then Some (next_ref iv, pr) else find_product iv pid)"
  using assms
  by (fastforce simp: add_product_def find_product_def wf_inventory_def Let_def split: option.splits)

lemma wf_add_product: "wf_inventory iv \<Longrightarrow> wf_inventory (fst (add_product iv pr))"
  unfolding wf_inventory_def add_product_def
  by (auto simp: Let_def) (metis le_refl option.distinct(1))+

lemma heap_covers_add_product:
  assumes "wf_inventory iv" "heap_covers iv"
  shows "heap_covers (fst (add_product iv pr))"
proof (cases "index iv (prod_id pr)")
  case None
  have h: "low_stock_heap (fst (add_product iv pr)) = low_stock_heap iv @ [(quantity pr, prod_id pr)]"
    using None by (simp add: add_product_def Let_def heappush_def)
  show ?thesis
    using assms(2) unfolding heap_covers_def
    by (auto simp: find_add_product [OF assms(1) None] h split: if_splits)
next
  case (Some a)
  with assms(2) show ?thesis by (simp add: add_product_def)
qed

subsection \<open>Cart and undo stack\<close>

lemma dict_get_dict_set:
  "dict_get (dict_set k v d) k' dflt = (if k' = k then v else dict_get d k' dflt)"
  by (simp add: dict_get_def map_of_dict_set)

lemma set_dict_set: "(a, b) \<in> set (dict_set k v d) \<Longrightarrow> (a = k \<and> b = v) \<or> (a, b) \<in> set d"
  by (induction d) (auto split: if_splits)

lemma keys_dict_set: "fst ` set (dict_set k v d) = insert k (fst ` set d)"
  by (simp add: dom_map_of_conv_image_fst [symmetric] map_of_dict_set)

lemma distinct_dict_set: "distinct (map fst d) \<Longrightarrow> distinct (map fst (dict_set k v d))"
  by (induction d) (auto simp: keys_dict_set)

lemma map_of_dict_pop: "map_of (dict_pop k d) = (map_of d)(k := None)"
  by (induction d) (auto simp: dict_pop_def)

lemma dict_get_dict_pop:
  "dict_get (dict_pop k d) k' dflt = (if k' = k then dflt else dict_get d k' dflt)"
  by (simp add: dict_get_def map_of_dict_pop)

lemma cart_ok_dict_set: "cart_ok c \<Longrightarrow> 0 < v \<Longrightarrow> cart_ok (dict_set k v c)"
  unfolding cart_ok_def by (auto simp: distinct_dict_set dest: set_dict_set)

lemma cart_ok_dict_pop_set:
  assumes "cart_ok c"
  shows "cart_ok (dict_pop k (dict_set k v c))"
proof -
  have "0 < b" if "(a, b) \<in> set (dict_set k v c)" "a \<noteq> k" for a b
    using set_dict_set [OF that(1)] that(2) assms by (auto simp: cart_ok_def)
  with assms show ?thesis
    unfolding cart_ok_def dict_pop_def
    by (auto simp: distinct_map_filter distinct_dict_set)
qed

lemma reserved_snoc:
  "reserved (us @ [(a, p, q)]) pid = reserved us pid + (if p = pid then q else 0)"
  by (simp add: reserved_def)

lemma reserved_nonneg: "undo_ok iv us \<Longrightarrow> 0 \<le> reserved us pid"
  unfolding undo_ok_def reserved_def
  by (induction us) auto

lemma undo_ok_snoc:
  "undo_ok iv (us @ [e]) \<longleftrightarrow>
     undo_ok iv us \<and> fst e = ''add'' \<and> 0 < snd (snd e) \<and> index iv (fst (snd e)) \<noteq> None"
  unfolding undo_ok_def by auto

subsection \<open>Reserving and undoing keep the invariant\<close>

lemma undo_ok_index: "index iv' = index iv \<Longrightarrow> undo_ok iv' us = undo_ok iv us"
  by (simp add: undo_ok_def)

lemma balanced_lookup:
  assumes "balanced c (us @ [(a, pid, qty)])" "undo_ok iv (us @ [(a, pid, qty)])"
  shows "map_of c pid = Some (reserved us pid + qty)"
proof -
  from assms(2) have "0 < qty" "undo_ok iv us"
    by (simp_all add: undo_ok_snoc)
  with reserved_nonneg [of iv us pid] have pos: "0 < reserved us pid + qty"
    by simp
  from assms(1) have "dict_get c pid 0 = reserved us pid + qty"
    by (simp add: balanced_def reserved_snoc)
  with pos show ?thesis
    by (auto simp: dict_get_def split: option.splits)
qed

lemma add_to_cart_ok:
  assumes "find_product (inventory s) pid = Some (node, pr)" "0 < qty" "qty \<le> quantity pr"
  shows "add_to_cart s pid qty =
           (s\<lparr>inventory := (inventory s)
                  \<lparr>store := (store (inventory s))(node \<mapsto> pr\<lparr>quantity := quantity pr - qty\<rparr>),
                   low_stock_heap := low_stock_heap (inventory s) @ [(quantity pr - qty, pid)]\<rparr>,
               cart := dict_set pid (dict_get (cart s) pid 0 + qty) (cart s),
               undo_stack := undo_stack s @ [(''add'', pid, qty)]\<rparr>,
            Added (name pr) (price pr) qty)"
  using assms by (simp add: add_to_cart_def Let_def restock_eq)

lemma add_to_cart_cases:
  obtains (fail) "fst (add_to_cart s pid qty) = s"
  | (ok) node pr where "find_product (inventory s) pid = Some (node, pr)" "0 < qty" "qty \<le> quantity pr"
proof (cases "find_product (inventory s) pid")
  case None
  then have "fst (add_to_cart s pid qty) = s" by (simp add: add_to_cart_def)
  then show ?thesis by (rule fail)
next
  case (Some a)
  obtain node pr where a: "a = (node, pr)" by (cases a)
  show ?thesis
  proof (cases "0 < qty \<and> qty \<le> quantity pr")
    case True
    with Some a show ?thesis by (auto intro: ok)
  next
    case False
    with Some a have "fst (add_to_cart s pid qty) = s"
      by (auto simp: add_to_cart_def)
    then show ?thesis by (rule fail)
  qed
qed

lemma sys_inv_add_to_cart:
  assumes "sys_inv s"
  shows "sys_inv (fst (add_to_cart s pid qty))"
proof (cases rule: add_to_cart_cases [of s pid qty])
  case fail
  with assms show ?thesis by simp
next
  case (ok node pr)
  from assms have wf: "wf_inventory (inventory s)" and hc: "heap_covers (inventory s)"
    and co: "cart_ok (cart s)" and uo: "undo_ok (inventory s) (undo_stack s)"
    and ba: "balanced (cart s) (undo_stack s)"
    by (simp_all add: sys_inv_def)
  from ba reserved_nonneg [OF uo, of pid] have "0 \<le> dict_get (cart s) pid 0"
    by (simp add: balanced_def)
  with ok(2) have pos: "0 < dict_get (cart s) pid 0 + qty"
    by simp
  from ok(1) have idx: "index (inventory s) pid \<noteq> None"
    by (simp add: find_product_index)
  have "wf_inventory (inventory (fst (add_to_cart s pid qty)))"
    using wf_restock [OF wf ok(1)] by (simp add: add_to_cart_ok [OF ok])
  moreover have "heap_covers (inventory (fst (add_to_cart s pid qty)))"
    using heap_covers_restock [OF wf hc ok(1)] by (simp add: add_to_cart_ok [OF ok])
  moreover have "cart_ok (cart (fst (add_to_cart s pid qty)))"
    using cart_ok_dict_set [OF co pos] by (simp add: add_to_cart_ok [OF ok])
  moreover have "undo_ok (inventory (fst (add_to_cart s pid qty)))
                   (undo_stack (fst (add_to_cart s pid qty)))"
    using uo idx ok(2) by (simp add: add_to_cart_ok [OF ok] undo_ok_snoc undo_ok_def)
  moreover have "balanced (cart (fst (add_to_cart s pid qty)))
                   (undo_stack (fst (add_to_cart s pid qty)))"
    using ba by (simp add: add_to_cart_ok [OF ok] balanced_def dict_get_dict_set reserved_snoc)
  ultimately show ?thesis
    by (simp add: sys_inv_def)
qed

lemma undo_last_ok:
  assumes "undo_stack s = us @ [(''add'', pid, qty)]"
    "find_product (inventory s) pid = Some (node, pr)" "map_of (cart s) pid = Some c"
  shows "undo_last s =
           (s\<lparr>undo_stack := us,
               inventory := (inventory s)
                  \<lparr>store := (store (inventory s))(node \<mapsto> pr\<lparr>quantity := quantity pr + qty\<rparr>),
                   low_stock_heap := low_stock_heap (inventory s) @ [(quantity pr + qty, pid)]\<rparr>,
               cart := (if c - qty \<le> 0 then dict_pop pid (dict_set pid (c - qty) (cart s))
                        else dict_set pid (c - qty) (cart s))\<rparr>,
            Undone qty (name pr))"
  using assms by (simp add: undo_last_def Let_def restock_eq dict_get_dict_set)

lemma undo_last_shape:
  assumes "sys_inv s" "undo_stack s \<noteq> []"
  obtains us pid qty node pr where
    "undo_stack s = us @ [(''add'', pid, qty)]"
    "find_product (inventory s) pid = Some (node, pr)"
    "map_of (cart s) pid = Some (reserved us pid + qty)" "0 < qty"
proof -
  from assms(2) obtain us e where us: "undo_stack s = us @ [e]"
    by (metis append_butlast_last_id)
  obtain a pid qty where e: "e = (a, pid, qty)" by (cases e)
  from assms(1) have wf: "wf_inventory (inventory s)"
    and uo: "undo_ok (inventory s) (undo_stack s)" and ba: "balanced (cart s) (undo_stack s)"
    by (simp_all add: sys_inv_def)
  from uo us e have a: "a = ''add''" and q: "0 < qty" and "index (inventory s) pid \<noteq> None"
    by (simp_all add: undo_ok_snoc)
  then obtain node where "index (inventory s) pid = Some node" by blast
  from wf_index_found [OF wf this] obtain pr where
    f: "find_product (inventory s) pid = Some (node, pr)" by blast
  from balanced_lookup [of "cart s" us a pid qty "inventory s"] ba uo us e
  have "map_of (cart s) pid = Some (reserved us pid + qty)"
    by simp
  with us e a f q show ?thesis by (auto intro: that)
qed

lemma sys_inv_undo_last:
  assumes "sys_inv s"
  shows "sys_inv (fst (undo_last s))"
proof (cases "undo_stack s = []")
  case True
  with assms show ?thesis by (simp add: undo_last_def)
next
  case False
  from assms False obtain us pid qty node pr where
    sh: "undo_stack s = us @ [(''add'', pid, qty)]"
        "find_product (inventory s) pid = Some (node, pr)"
        "map_of (cart s) pid = Some (reserved us pid + qty)" and q: "0 < qty"
    by (rule undo_last_shape)
  note eq = undo_last_ok [OF sh]
  from assms have wf: "wf_inventory (inventory s)" and hc: "heap_covers (inventory s)"
    and co: "cart_ok (cart s)" and uo: "undo_ok (inventory s) (undo_stack s)"
    and ba: "balanced (cart s) (undo_stack s)"
    by (simp_all add: sys_inv_def)
  from uo sh(1) have uo': "undo_ok (inventory s) us"
    by (simp add: undo_ok_snoc)
  have "wf_inventory (inventory (fst (undo_last s)))"
    using wf_restock [OF wf sh(2)] by (simp add: eq)
  moreover have "heap_covers (inventory (fst (undo_last s)))"
    using heap_covers_restock [OF wf hc sh(2)] by (simp add: eq)
  moreover have "cart_ok (cart (fst (undo_last s)))"
    using cart_ok_dict_set [OF co, of "reserved us pid" pid] cart_ok_dict_pop_set [OF co]
    by (simp add: eq)
  moreover have "undo_ok (inventory (fst (undo_last s))) (undo_stack (fst (undo_last s)))"
    using uo' by (simp add: eq undo_ok_def)
  moreover have "balanced (cart (fst (undo_last s))) (undo_stack (fst (undo_last s)))"
    using ba reserved_nonneg [OF uo', of pid]
    by (auto simp: eq balanced_def dict_get_dict_set dict_get_dict_pop sh(1) reserved_snoc)
  ultimately show ?thesis
    by (simp add: sys_inv_def)
qed

subsection \<open>The other operations keep the invariant\<close>

lemma restore_loop_inv:
  "wf_inventory iv \<Longrightarrow> heap_covers iv \<Longrightarrow>
     wf_inventory (restore_loop iv items) \<and> heap_covers (restore_loop iv items)
     \<and> index (restore_loop iv items) = index iv"
proof (induction items arbitrary: iv)
  case Nil
  then show ?case by simp
next
  case (Cons e items)
  obtain pid qty where e: "e = (pid, qty)" by (cases e)
  show ?case
  proof (cases "find_product iv pid")
    case None
    with Cons e show ?thesis by simp
  next
    case (Some a)
    obtain node pr where a: "a = (node, pr)" by (cases a)
    let ?iv = "iv\<lparr>store := (store iv)(node \<mapsto> pr\<lparr>quantity := quantity pr + qty\<rparr>),
                  low_stock_heap := low_stock_heap iv @ [(quantity pr + qty, pid)]\<rparr>"
    from Some a have f: "find_product iv pid = Some (node, pr)" by simp
    have step: "restore_loop iv (e # items) = restore_loop ?iv items"
      using f e by (simp add: Let_def restock_eq)
    have "wf_inventory ?iv" "heap_covers ?iv"
      using wf_restock [OF Cons.prems(1) f] heap_covers_restock [OF Cons.prems f] by simp_all
    from Cons.IH [OF this] show ?thesis
      by (simp add: step)
  qed
qed

lemma find_restore_loop:
  "wf_inventory iv \<Longrightarrow> distinct (map fst items) \<Longrightarrow>
     find_product (restore_loop iv items) p =
       map_option (\<lambda>(node, pr). (node, pr\<lparr>quantity := quantity pr + dict_get items p 0\<rparr>))
         (find_product iv p)"
proof (induction items arbitrary: iv)
  case Nil
  then show ?case by (cases "find_product iv p") (auto simp: dict_get_def)
next
  case (Cons e items)
  obtain pid qty where e: "e = (pid, qty)" by (cases e)
  from Cons.prems(2) e have d: "distinct (map fst items)" and fresh: "pid \<notin> fst ` set items"
    by auto
  show ?case
  proof (cases "find_product iv pid")
    case None
    then have "p \<noteq> pid \<or> find_product iv p = None" by auto
    with Cons.IH [OF Cons.prems(1) d] None e show ?thesis
      by (auto simp: dict_get_def)
  next
    case (Some a)
    obtain node pr where a: "a = (node, pr)" by (cases a)
    let ?iv = "iv\<lparr>store := (store iv)(node \<mapsto> pr\<lparr>quantity := quantity pr + qty\<rparr>),
                  low_stock_heap := low_stock_heap iv @ [(quantity pr + qty, pid)]\<rparr>"
    from Some a have f: "find_product iv pid = Some (node, pr)" by simp
    have step: "restore_loop iv (e # items) = restore_loop ?iv items"
      using f e by (simp add: Let_def restock_eq)
    have wf': "wf_inventory ?iv"
      using wf_restock [OF Cons.prems(1) f] by simp
    from fresh have zero: "dict_get items pid 0 = 0"
      by (auto simp: dict_get_def map_of_eq_None_iff [symmetric] split: option.splits)
    have A: "find_product (restore_loop ?iv items) p =
               map_option (\<lambda>(node, pr). (node, pr\<lparr>quantity := quantity pr + dict_get items p 0\<rparr>))
                 (find_product ?iv p)"
      by (rule Cons.IH [OF wf' d])
    have B: "find_product ?iv p =
               (if p = pid then Some (node, pr\<lparr>quantity := quantity pr + qty\<rparr>)
                else find_product iv p)"
      using find_restock [OF Cons.prems(1) f] by simp
    have C: "dict_get (e # items) p 0 = (if p = pid then qty else dict_get items p 0)"
      using e zero by (simp add: dict_get_def)
    show ?thesis
      unfolding step A B C using zero f by auto
  qed
qed

lemma index_add_product:
  "index iv pid \<noteq> None \<Longrightarrow> index (fst (add_product iv pr)) pid \<noteq> None"
  by (simp add: add_product_def Let_def)

lemma sys_inv_on_add_product: "sys_inv s \<Longrightarrow> sys_inv (fst (on_add_product s pr))"
  unfolding sys_inv_def on_add_product_def
  by (auto simp: split_beta wf_add_product heap_covers_add_product undo_ok_def index_add_product)

lemma sys_inv_compute_totals [simp]: "sys_inv (compute_totals s) = sys_inv s"
  by (simp add: sys_inv_def compute_totals_def Let_def)

lemma sys_inv_customer [simp]: "sys_inv (s\<lparr>customer_name := n\<rparr>) = sys_inv s"
  by (simp add: sys_inv_def)

lemma sys_inv_clear:
  "wf_inventory (inventory s) \<Longrightarrow> heap_covers (inventory s) \<Longrightarrow> sys_inv (clear s)"
  by (simp add: sys_inv_def clear_def cart_ok_def undo_ok_def balanced_def dict_get_def reserved_def)

lemma sys_inv_on_checkout: "sys_inv s \<Longrightarrow> sys_inv (fst (on_checkout s))"
  by (auto simp: on_checkout_def checkout_summary_def Let_def intro!: sys_inv_clear)
    (simp_all add: sys_inv_def compute_totals_def Let_def)

lemma sys_inv_on_clear_cart:
  assumes "sys_inv s"
  shows "sys_inv (on_clear_cart s)"
proof -
  from assms have "wf_inventory (inventory s)" "heap_covers (inventory s)"
    by (simp_all add: sys_inv_def)
  from restore_loop_inv [OF this, of "cart s"]
  have "sys_inv (clear (s\<lparr>inventory := restore_loop (inventory s) (cart s)\<rparr>))"
    by (intro sys_inv_clear) simp_all
  then show ?thesis
    by (simp add: on_clear_cart_def Let_def)
qed

subsection \<open>The low-stock query\<close>

declare k_lowest_loop.simps [simp del]

lemma heappop_Min:
  assumes "h \<noteq> []"
  shows "heappop h = Some (Min (set h), remove1 (Min (set h)) h)"
proof (cases h)
  case Nil
  with assms show ?thesis by simp
next
  case (Cons x xs)
  have "fold min xs x = Min (set (x # xs))"
    by (rule Min.set_eq_fold [symmetric])
  with Cons show ?thesis
    by (simp only: heappop.simps Let_def)
qed

lemma sort_Min:
  fixes h :: "('a::linorder) list"
  assumes "h \<noteq> []"
  shows "sort h = Min (set h) # sort (remove1 (Min (set h)) h)"
proof (rule properties_for_sort)
  from assms have "Min (set h) \<in> set h" by simp
  then show "mset (Min (set h) # sort (remove1 (Min (set h)) h)) = mset h"
    by simp
  have "Min (set h) \<le> x" if "x \<in> set (remove1 (Min (set h)) h)" for x
    using that set_remove1_subset [of "Min (set h)" h] by (auto intro: Min_le)
  then show "sorted (Min (set h) # sort (remove1 (Min (set h)) h))"
    by simp
qed

lemma current_heap [simp]: "current (iv\<lparr>low_stock_heap := h\<rparr>) = current iv"
  by (simp add: current_def fun_eq_iff)

lemma k_lowest_loop_stop:
  "low_stock_heap iv = [] \<or> \<not> seen < k \<Longrightarrow>
     k_lowest_loop iv k results seen popped = (iv, results, popped)"
  by (subst k_lowest_loop.simps) auto

lemma k_lowest_loop_step:
  assumes "low_stock_heap iv \<noteq> []" "seen < k"
  shows "k_lowest_loop iv k results seen popped =
           (let m = Min (set (low_stock_heap iv));
                iv1 = iv\<lparr>low_stock_heap := remove1 m (low_stock_heap iv)\<rparr>
            in case current iv m of
                 None \<Rightarrow> k_lowest_loop iv1 k results seen (popped @ [m])
               | Some pr \<Rightarrow> k_lowest_loop iv1 k (results @ [pr]) (seen + 1) (popped @ [m]))"
  using assms
  by (subst k_lowest_loop.simps)
    (auto simp: heappop_Min Let_def current_def split: option.splits prod.splits)

lemma length_pop:
  "h \<noteq> [] \<Longrightarrow> length (remove1 (Min (set h)) h) = length h - 1"
  by (simp add: length_remove1)

lemma mset_pop:
  "h \<noteq> [] \<Longrightarrow> add_mset (Min (set h)) (mset (remove1 (Min (set h)) h)) = mset h"
  by simp

lemma k_lowest_loop_frame:
  "k_lowest_loop iv k results seen popped = (iv', results', popped') \<Longrightarrow>
     store iv' = store iv \<and> index iv' = index iv \<and> next_ref iv' = next_ref iv
     \<and> chain iv' = chain iv
     \<and> mset (low_stock_heap iv') + mset popped' = mset (low_stock_heap iv) + mset popped"
proof (induction "length (low_stock_heap iv)" arbitrary: iv results seen popped)
  case 0
  then show ?case by (simp add: k_lowest_loop_stop)
next
  case (Suc n)
  show ?case
  proof (cases "seen < k")
    case False
    with Suc.prems show ?thesis by (simp add: k_lowest_loop_stop)
  next
    case True
    from Suc.hyps(2) have ne: "low_stock_heap iv \<noteq> []" by auto
    let ?m = "Min (set (low_stock_heap iv))"
    let ?iv = "iv\<lparr>low_stock_heap := remove1 ?m (low_stock_heap iv)\<rparr>"
    have len: "n = length (low_stock_heap ?iv)"
      using Suc.hyps(2) ne by (simp add: length_pop)
    have ms: "mset (low_stock_heap ?iv) + mset (popped @ [?m]) = mset (low_stock_heap iv) + mset popped"
      using mset_pop [OF ne] by simp
    show ?thesis
    proof (cases "current iv ?m")
      case None
      with Suc.prems ne True
      have "k_lowest_loop ?iv k results seen (popped @ [?m]) = (iv', results', popped')"
        by (simp add: k_lowest_loop_step Let_def)
      from Suc.hyps(1) [OF len this] ms show ?thesis by simp
    next
      case (Some pr)
      with Suc.prems ne True
      have "k_lowest_loop ?iv k (results @ [pr]) (seen + 1) (popped @ [?m]) = (iv', results', popped')"
        by (simp add: k_lowest_loop_step Let_def)
      from Suc.hyps(1) [OF len this] ms show ?thesis by simp
    qed
  qed
qed

lemma k_lowest_loop_results:
  "fst (snd (k_lowest_loop iv k results seen popped)) =
     results @ take (nat (k - seen)) (List.map_filter (current iv) (sort (low_stock_heap iv)))"
proof (induction "length (low_stock_heap iv)" arbitrary: iv results seen popped)
  case 0
  then show ?case by (simp add: k_lowest_loop_stop)
next
  case (Suc n)
  show ?case
  proof (cases "seen < k")
    case False
    then show ?thesis by (simp add: k_lowest_loop_stop)
  next
    case True
    from Suc.hyps(2) have ne: "low_stock_heap iv \<noteq> []" by auto
    let ?m = "Min (set (low_stock_heap iv))"
    let ?iv = "iv\<lparr>low_stock_heap := remove1 ?m (low_stock_heap iv)\<rparr>"
    have len: "n = length (low_stock_heap ?iv)"
      using Suc.hyps(2) ne by (simp add: length_pop)
    have srt: "sort (low_stock_heap iv) = ?m # sort (low_stock_heap ?iv)"
      using sort_Min [OF ne] by simp
    from True have k: "nat (k - seen) = Suc (nat (k - (seen + 1)))" by simp
    show ?thesis
    proof (cases "current iv ?m")
      case None
      with ne True Suc.hyps(1) [OF len, of results seen "popped @ [?m]"] show ?thesis
        by (simp add: k_lowest_loop_step Let_def srt del: sort_key_simps)
    next
      case (Some pr)
      with ne True Suc.hyps(1) [OF len, of "results @ [pr]" "seen + 1" "popped @ [?m]"]
      show ?thesis
        by (simp add: k_lowest_loop_step Let_def srt k del: sort_key_simps)
    qed
  qed
qed

lemma fold_heappush: "fold (\<lambda>item h. heappush h item) popped h = h @ popped"
  by (induction popped arbitrary: h) (simp_all add: heappush_def)

lemma k_lowest_stock_frame:
  "store (fst (k_lowest_stock iv k)) = store iv"
  "index (fst (k_lowest_stock iv k)) = index iv"
  "next_ref (fst (k_lowest_stock iv k)) = next_ref iv"
  "chain (fst (k_lowest_stock iv k)) = chain iv"
  "mset (low_stock_heap (fst (k_lowest_stock iv k))) = mset (low_stock_heap iv)"
proof -
  obtain iv' results' popped' where l: "k_lowest_loop iv k [] 0 [] = (iv', results', popped')"
    by (cases "k_lowest_loop iv k [] 0 []")
  from k_lowest_loop_frame [OF l] l
  show "store (fst (k_lowest_stock iv k)) = store iv"
    "index (fst (k_lowest_stock iv k)) = index iv"
    "next_ref (fst (k_lowest_stock iv k)) = next_ref iv"
    "chain (fst (k_lowest_stock iv k)) = chain iv"
    "mset (low_stock_heap (fst (k_lowest_stock iv k))) = mset (low_stock_heap iv)"
    by (simp_all add: k_lowest_stock_def fold_heappush)
qed

lemma k_lowest_stock_results:
  "snd (k_lowest_stock iv k) =
     take (nat k) (List.map_filter (current iv) (sort (low_stock_heap iv)))"
  using k_lowest_loop_results [of iv k "[]" 0 "[]"]
  by (simp add: k_lowest_stock_def split_beta)

lemma find_product_frame:
  "store iv' = store iv \<Longrightarrow> index iv' = index iv \<Longrightarrow> find_product iv' = find_product iv"
  by (simp add: find_product_def fun_eq_iff split: option.splits)

lemma sys_inv_on_show_low_stock:
  assumes "sys_inv s"
  shows "sys_inv (fst (on_show_low_stock s k))"
proof -
  let ?iv = "fst (k_lowest_stock (inventory s) k)"
  have s': "fst (on_show_low_stock s k) = s\<lparr>inventory := ?iv\<rparr>"
    by (simp add: on_show_low_stock_def split_beta)
  have f: "find_product ?iv = find_product (inventory s)"
    by (rule find_product_frame) (simp_all add: k_lowest_stock_frame)
  have h: "set (low_stock_heap ?iv) = set (low_stock_heap (inventory s))"
    using k_lowest_stock_frame(5) [of "inventory s" k] by (rule mset_eq_setD)
  from assms show ?thesis
    unfolding s' sys_inv_def
    by (simp add: wf_inventory_def heap_covers_def undo_ok_def f h k_lowest_stock_frame)
qed

lemma sys_inv_start: "sys_inv new_system"
  by (simp add: sys_inv_def new_system_def empty_inventory_def wf_inventory_def heap_covers_def
      find_product_def cart_ok_def undo_ok_def balanced_def dict_get_def reserved_def)

lemma reachable_sys_inv: "reachable s \<Longrightarrow> sys_inv s"
proof (induction rule: reachable.induct)
  case start
  show ?case by (rule sys_inv_start)
qed (simp_all add: sys_inv_on_add_product sys_inv_add_to_cart sys_inv_undo_last
      sys_inv_on_checkout sys_inv_on_clear_cart sys_inv_on_show_low_stock)

subsection \<open>Undoing a dictionary update\<close>

lemma dict_pop_dict_set_fresh: "k \<notin> fst ` set d \<Longrightarrow> dict_pop k (dict_set k v d) = d"
  by (induction d) (auto simp: dict_pop_def)

lemma dict_set_twice: "dict_set k v (dict_set k v' d) = dict_set k v d"
  by (induction d) auto

lemma dict_set_back: "map_of d k = Some v \<Longrightarrow> dict_set k v d = d"
  by (induction d) (auto split: if_splits)

lemma cart_ok_lookup:
  assumes "cart_ok c"
  shows "(map_of c k = None \<and> k \<notin> fst ` set c \<and> dict_get c k 0 = 0)
         \<or> (map_of c k = Some (dict_get c k 0) \<and> 0 < dict_get c k 0)"
proof (cases "map_of c k")
  case None
  have "k \<notin> fst ` set c"
    using None by (simp add: map_of_eq_None_iff)
  moreover have "dict_get c k 0 = 0"
    unfolding dict_get_def by (simp only: None option.case)
  ultimately show ?thesis
    using None by blast
next
  case (Some v)
  then have "(k, v) \<in> set c" by (rule map_of_SomeD)
  with assms have "0 < v" by (auto simp: cart_ok_def)
  with Some show ?thesis by (simp add: dict_get_def)
qed

subsection \<open>Repeating the low-stock query\<close>

lemma sort_mset_eq:
  fixes xs ys :: "('a::linorder) list"
  assumes "mset xs = mset ys"
  shows "sort xs = sort ys"
  by (rule properties_for_sort) (simp_all add: assms)

lemma current_frame:
  assumes "store iv' = store iv" "index iv' = index iv"
  shows "current iv' = current iv"
proof -
  from assms have "find_product iv' = find_product iv"
    by (rule find_product_frame)
  then show ?thesis
    by (simp add: current_def fun_eq_iff)
qed

subsection \<open>Undoing every reservation\<close>

declare spec_replay_undo.simps [simp del]

lemma cart_empty:
  assumes "cart_ok c" "balanced c []"
  shows "c = []"
proof (cases c)
  case Nil
  then show ?thesis .
next
  case (Cons e c')
  obtain k v where e: "e = (k, v)" by (cases e)
  from assms(1) Cons e have "0 < v" by (simp add: cart_ok_def)
  moreover from assms(2) Cons e have "v = 0"
    by (simp add: balanced_def dict_get_def reserved_def split: if_splits)
  ultimately show ?thesis by simp
qed

lemma spec_replay_undo_effect:
  "sys_inv s \<Longrightarrow>
     find_product (inventory (spec_replay_undo s)) p =
       map_option (\<lambda>(node, pr). (node, pr\<lparr>quantity := quantity pr + reserved (undo_stack s) p\<rparr>))
         (find_product (inventory s) p)
     \<and> cart (spec_replay_undo s) = [] \<and> undo_stack (spec_replay_undo s) = []"
proof (induction s rule: spec_replay_undo.induct)
  case (1 s)
  show ?case
  proof (cases "undo_stack s = []")
    case True
    from "1.prems" True have "cart s = []"
      by (auto simp: sys_inv_def intro: cart_empty)
    with True show ?thesis
      by (cases "find_product (inventory s) p")
        (auto simp: spec_replay_undo.simps [of s] reserved_def)
  next
    case False
    from "1.prems" False obtain us pid qty node pr where
      sh: "undo_stack s = us @ [(''add'', pid, qty)]"
          "find_product (inventory s) pid = Some (node, pr)"
          "map_of (cart s) pid = Some (reserved us pid + qty)" and "0 < qty"
      by (rule undo_last_shape)
    define s1 where "s1 = fst (undo_last s)"
    from "1.prems" have wf: "wf_inventory (inventory s)"
      by (simp add: sys_inv_def)
    have inv1: "sys_inv s1"
      unfolding s1_def using "1.prems" by (rule sys_inv_undo_last)
    have st1: "undo_stack s1 = us"
      unfolding s1_def by (simp add: undo_last_ok [OF sh])
    have f1: "find_product (inventory s1) p =
                (if p = pid then Some (node, pr\<lparr>quantity := quantity pr + qty\<rparr>)
                 else find_product (inventory s) p)"
      unfolding s1_def using find_restock [OF wf sh(2), of "quantity pr + qty" p]
      by (simp add: undo_last_ok [OF sh])
    have step: "spec_replay_undo s = spec_replay_undo s1"
      unfolding s1_def using False by (simp add: spec_replay_undo.simps [of s])
    have rs: "reserved (undo_stack s) p = reserved us p + (if pid = p then qty else 0)"
      by (simp add: sh(1) reserved_snoc)
    from "1.IH" [OF False] inv1 have
      ih: "find_product (inventory (spec_replay_undo s1)) p =
             map_option (\<lambda>(node, pr). (node, pr\<lparr>quantity := quantity pr + reserved us p\<rparr>))
               (find_product (inventory s1) p)
           \<and> cart (spec_replay_undo s1) = [] \<and> undo_stack (spec_replay_undo s1) = []"
      by (simp add: s1_def [symmetric] st1)
    show ?thesis
      unfolding step rs using ih sh(2) by (auto simp: f1)
  qed
qed

subsection \<open>Every product in the cart is in the inventory\<close>

lemma reserved_entry:
  "reserved us pid \<noteq> 0 \<Longrightarrow> \<exists>e \<in> set us. fst (snd e) = pid"
  unfolding reserved_def by (induction us) (auto split: if_splits)

lemma reachable_cart_products_found:
  assumes "reachable s" "(pid, qty) \<in> set (cart s)"
  shows "\<exists>node pr. find_product (inventory s) pid = Some (node, pr)"
proof -
  from assms(1) have inv: "sys_inv s" by (rule reachable_sys_inv)
  then have wf: "wf_inventory (inventory s)" and co: "cart_ok (cart s)"
    and uo: "undo_ok (inventory s) (undo_stack s)" and ba: "balanced (cart s) (undo_stack s)"
    by (simp_all add: sys_inv_def)
  from co assms(2) have "map_of (cart s) pid = Some qty" "0 < qty"
    by (auto simp: cart_ok_def)
  with ba have "reserved (undo_stack s) pid \<noteq> 0"
    by (auto simp: balanced_def dict_get_def dest!: spec [of _ pid])
  then obtain e where "e \<in> set (undo_stack s)" "fst (snd e) = pid"
    using reserved_entry by blast
  with uo obtain node where "index (inventory s) pid = Some node"
    unfolding undo_ok_def by blast
  from wf_index_found [OF wf this] show ?thesis by blast
qed

subsection \<open>The concrete states are reachable\<close>

lemma reachable_rice_returned: "reachable rice_returned"
  unfolding rice_returned_def rice_dal_stocked_def rice_stocked_def
  by (rule reachable.undo_last [OF reachable.add_to_cart
        [OF reachable.add_product [OF reachable.add_product [OF reachable.start]]]])

section \<open>The scenario of the specification\<close>

text \<open>
  Claim C2, as stated: in the scenario (new system, add product (1, "Rice", 50.00, 100),
  reserve 10 units of product 1), \<open>compute_totals\<close> yields subtotal 500 and discount 0.
  The code yields another discount, so the statement is false.
\<close>

theorem scenario_discount_not_zero:
  "\<not> (subtotal (compute_totals rice_reserved) = 500
      \<and> discount (compute_totals rice_reserved) = 0)"
  by (simp add: eval_defs)

text \<open>
  Claim C2, amended: in that scenario the reservation succeeds and \<open>compute_totals\<close>
  yields subtotal 500 and discount 25. A subtotal of exactly 500 is not above 500, so the
  10 percent slab does not apply; it is above 200, so the 5 percent slab does.
\<close>

theorem scenario_totals:
  "snd (on_add_product new_system rice) = True
   \<and> snd (add_to_cart rice_stocked 1 10) = Added ''Rice'' 50 10
   \<and> subtotal (compute_totals rice_reserved) = 500
   \<and> discount (compute_totals rice_reserved) = 25"
  by (simp add: eval_defs)

section \<open>Reservation\<close>

text \<open>
  Claim C4: \<open>add_to_cart\<close> (the specification's \<open>reserve\<close>) fails with \<open>NotFound\<close> when
  the id is unknown; for a known id it fails with \<open>InvalidQuantity\<close> when the quantity is
  not positive, and with \<open>InsufficientStock\<close> when a positive quantity exceeds the
  product's current quantity. The checks run in this order, the first that fails decides.
  Whenever the call fails, the state it returns is the state it was given: inventory,
  cart and undo stack are unchanged.
\<close>

theorem add_to_cart_failures:
  "(find_product (inventory s) pid = None \<longrightarrow> add_to_cart s pid qty = (s, NotFound))
   \<and> (\<forall>node pr. find_product (inventory s) pid = Some (node, pr) \<longrightarrow>
         (qty \<le> 0 \<longrightarrow> add_to_cart s pid qty = (s, InvalidQuantity)) \<and>
         (0 < qty \<and> quantity pr < qty \<longrightarrow> add_to_cart s pid qty = (s, InsufficientStock)))
   \<and> (snd (add_to_cart s pid qty) \<in> {NotFound, InvalidQuantity, InsufficientStock} \<longrightarrow>
         fst (add_to_cart s pid qty) = s)"
  by (auto simp: add_to_cart_def Let_def split: option.splits)

theorem add_to_cart_failures_witness:
  "find_product (inventory new_system) 7 = None
   \<and> add_to_cart new_system 7 3 = (new_system, NotFound)
   \<and> find_product (inventory rice_stocked) 1 = Some (0, rice)
   \<and> add_to_cart rice_stocked 1 0 = (rice_stocked, InvalidQuantity)
   \<and> add_to_cart rice_stocked 1 200 = (rice_stocked, InsufficientStock)
   \<and> fst (add_to_cart rice_stocked 1 200) = rice_stocked"
proof -
  have unknown: "find_product (inventory new_system) 7 = None"
    by (simp add: new_system_def empty_inventory_def find_product_def)
  have known: "find_product (inventory rice_stocked) 1 = Some (0, rice)"
    by (simp add: eval_defs)
  have stock: "quantity rice < 200"
    by (simp add: rice_def)
  from add_to_cart_failures [of new_system 7 3] unknown
  have a: "add_to_cart new_system 7 3 = (new_system, NotFound)"
    by blast
  from add_to_cart_failures [of rice_stocked 1 0] known
  have b: "add_to_cart rice_stocked 1 0 = (rice_stocked, InvalidQuantity)"
    by simp
  from add_to_cart_failures [of rice_stocked 1 200] known stock
  have c: "add_to_cart rice_stocked 1 200 = (rice_stocked, InsufficientStock)"
    by simp
  from unknown known a b c show ?thesis
    by simp
qed

text \<open>
  Claim C5: when \<open>add_to_cart\<close> succeeds, the product's quantity in the inventory is its
  quantity before minus \<open>qty\<close>, the cart's entry for the id is its value before (0 if
  absent) plus \<open>qty\<close> while the other entries stay, and the action for this reservation
  is pushed on the undo stack; the code tags it with the string "add". One call does
  all three.
\<close>

theorem add_to_cart_success:
  assumes "snd (add_to_cart s pid qty) = Added n p q"
  shows "\<exists>node pr. find_product (inventory s) pid = Some (node, pr)
           \<and> find_product (inventory (fst (add_to_cart s pid qty))) pid
               = Some (node, pr\<lparr>quantity := quantity pr - qty\<rparr>)
           \<and> map_of (cart (fst (add_to_cart s pid qty)))
               = (map_of (cart s))(pid \<mapsto> dict_get (cart s) pid 0 + qty)
           \<and> undo_stack (fst (add_to_cart s pid qty)) = undo_stack s @ [(''add'', pid, qty)]"
proof (cases "find_product (inventory s) pid")
  case None
  with assms show ?thesis by (simp add: add_to_cart_def)
next
  case (Some a)
  obtain node pr where a: "a = (node, pr)" by (cases a)
  from assms Some a have ok: "\<not> qty \<le> 0" "\<not> quantity pr < qty"
    by (auto simp: add_to_cart_def split: if_splits)
  from Some a have idx: "index (inventory s) pid = Some node"
    by (auto simp: find_product_def split: option.splits)
  show ?thesis
    using Some a ok idx
    by (simp add: add_to_cart_def Let_def restock_eq map_of_dict_set find_product_def)
qed

theorem add_to_cart_success_witness:
  "snd (add_to_cart rice_stocked 1 10) = Added ''Rice'' 50 10
   \<and> find_product (inventory rice_reserved) 1 = Some (0, rice\<lparr>quantity := 90\<rparr>)
   \<and> map_of (cart rice_reserved) 1 = Some 10
   \<and> undo_stack rice_reserved = [(''add'', 1, 10)]"
proof -
  have ok: "snd (add_to_cart rice_stocked 1 10) = Added ''Rice'' 50 10"
    by (simp add: eval_defs)
  have before: "find_product (inventory rice_stocked) 1 = Some (0, rice)"
    "cart rice_stocked = []" "undo_stack rice_stocked = []"
    by (simp_all add: eval_defs)
  from add_to_cart_success [OF ok] before ok show ?thesis
    by (auto simp: rice_reserved_def dict_get_def rice_def)
qed

section \<open>Undo\<close>

text \<open>
  Claim C6: in every reachable state, a successful \<open>add_to_cart\<close> (the specification's
  \<open>reserve\<close>) followed at once by \<open>undo_last\<close> restores the store of products, hence
  the product's quantity, the whole cart (an entry that returns to zero is removed) and
  the undo stack, hence its depth. And \<open>undo_last\<close> on an empty undo stack, in any state,
  answers \<open>EmptyUndoLog\<close> and returns the state unchanged.
\<close>

theorem reserve_then_undo:
  "(reachable s \<and> snd (add_to_cart s pid qty) = Added n p q \<longrightarrow>
      store (inventory (fst (undo_last (fst (add_to_cart s pid qty))))) = store (inventory s)
      \<and> find_product (inventory (fst (undo_last (fst (add_to_cart s pid qty))))) pid
          = find_product (inventory s) pid
      \<and> cart (fst (undo_last (fst (add_to_cart s pid qty)))) = cart s
      \<and> undo_stack (fst (undo_last (fst (add_to_cart s pid qty)))) = undo_stack s
      \<and> snd (undo_last (fst (add_to_cart s pid qty))) = Undone qty n)
   \<and> (undo_stack t = [] \<longrightarrow> undo_last t = (t, EmptyUndoLog))"
proof (intro conjI impI)
  show "undo_last t = (t, EmptyUndoLog)" if "undo_stack t = []"
    using that by (simp add: undo_last_def)
next
  assume a: "reachable s \<and> snd (add_to_cart s pid qty) = Added n p q"
  then have "sys_inv s" by (simp add: reachable_sys_inv)
  then have co: "cart_ok (cart s)" by (simp add: sys_inv_def)
  from a obtain node pr where ok: "find_product (inventory s) pid = Some (node, pr)"
      "0 < qty" "qty \<le> quantity pr"
    by (cases rule: add_to_cart_cases [of s pid qty])
      (auto simp: add_to_cart_def split: option.splits if_splits)
  note r = add_to_cart_ok [OF ok]
  from a r have n: "n = name pr" by simp
  define s1 where "s1 = fst (add_to_cart s pid qty)"
  let ?c = "dict_get (cart s) pid 0"
  have s1: "s1 = s\<lparr>inventory := (inventory s)
                    \<lparr>store := (store (inventory s))(node \<mapsto> pr\<lparr>quantity := quantity pr - qty\<rparr>),
                     low_stock_heap := low_stock_heap (inventory s) @ [(quantity pr - qty, pid)]\<rparr>,
                 cart := dict_set pid (?c + qty) (cart s),
                 undo_stack := undo_stack s @ [(''add'', pid, qty)]\<rparr>"
    by (simp add: s1_def r)
  from ok(1) have cell: "index (inventory s) pid = Some node" "store (inventory s) node = Some pr"
    by (simp_all add: find_product_index)
  have u1: "undo_stack s1 = undo_stack s @ [(''add'', pid, qty)]"
    by (simp add: s1)
  have u2: "find_product (inventory s1) pid = Some (node, pr\<lparr>quantity := quantity pr - qty\<rparr>)"
    using cell by (simp add: s1 find_product_def)
  have u3: "map_of (cart s1) pid = Some (?c + qty)"
    by (simp add: s1 map_of_dict_set)
  note u = undo_last_ok [OF u1 u2 u3]
  have st: "(store (inventory s))(node \<mapsto> pr) = store (inventory s)"
    using cell(2) by (rule map_upd_triv)
  have store_eq: "store (inventory (fst (undo_last s1))) = store (inventory s)"
    unfolding u by (simp add: s1 st)
  have idx_eq: "index (inventory (fst (undo_last s1))) = index (inventory s)"
    unfolding u by (simp add: s1)
  have cart_eq: "cart (fst (undo_last s1)) = cart s"
    unfolding u using cart_ok_lookup [OF co, of pid]
    by (auto simp: s1 dict_set_back dict_set_twice dict_pop_dict_set_fresh)
  have stack_eq: "undo_stack (fst (undo_last s1)) = undo_stack s"
    unfolding u by simp
  have res: "snd (undo_last s1) = Undone qty n"
    unfolding u by (simp add: n)
  show "store (inventory (fst (undo_last (fst (add_to_cart s pid qty))))) = store (inventory s)"
    using store_eq by (simp only: s1_def)
  show "find_product (inventory (fst (undo_last (fst (add_to_cart s pid qty))))) pid
          = find_product (inventory s) pid"
    using store_eq idx_eq by (simp only: s1_def find_product_def)
  show "cart (fst (undo_last (fst (add_to_cart s pid qty)))) = cart s"
    using cart_eq by (simp only: s1_def)
  show "undo_stack (fst (undo_last (fst (add_to_cart s pid qty)))) = undo_stack s"
    using stack_eq by (simp only: s1_def)
  show "snd (undo_last (fst (add_to_cart s pid qty))) = Undone qty n"
    using res by (simp only: s1_def)
qed

theorem reserve_then_undo_witness:
  "reachable rice_stocked \<and> snd (add_to_cart rice_stocked 1 10) = Added ''Rice'' 50 10
   \<and> find_product (inventory (fst (undo_last rice_reserved))) 1 = Some (0, rice)
   \<and> cart (fst (undo_last rice_reserved)) = []
   \<and> undo_stack (fst (undo_last rice_reserved)) = []
   \<and> undo_stack rice_stocked = [] \<and> undo_last rice_stocked = (rice_stocked, EmptyUndoLog)"
proof -
  have r: "reachable rice_stocked"
    unfolding rice_stocked_def by (rule reachable.add_product [OF reachable.start])
  have ok: "snd (add_to_cart rice_stocked 1 10) = Added ''Rice'' 50 10"
    by (simp add: eval_defs)
  have before: "find_product (inventory rice_stocked) 1 = Some (0, rice)"
    "cart rice_stocked = []" "undo_stack rice_stocked = []"
    by (simp_all add: eval_defs)
  from reserve_then_undo [of rice_stocked 1 10 "''Rice''" 50 10 rice_stocked] r ok before show ?thesis
    by (simp add: rice_reserved_def)
qed

text \<open>
  Claim C10: in every reachable state, every action on the undo stack names a product
  that \<open>find\<close> finds in the inventory, so \<open>undo_last\<close> never answers
  "Unexpected error: product missing.".
\<close>

theorem undo_never_misses_product:
  assumes "reachable s"
  shows "(\<forall>e \<in> set (undo_stack s). find_product (inventory s) (fst (snd e)) \<noteq> None)
         \<and> snd (undo_last s) \<noteq> ProductMissing"
proof
  from assms have inv: "sys_inv s" by (rule reachable_sys_inv)
  then have wf: "wf_inventory (inventory s)" and uo: "undo_ok (inventory s) (undo_stack s)"
    by (simp_all add: sys_inv_def)
  show "\<forall>e \<in> set (undo_stack s). find_product (inventory s) (fst (snd e)) \<noteq> None"
  proof
    fix e assume e: "e \<in> set (undo_stack s)"
    from uo e have "index (inventory s) (fst (snd e)) \<noteq> None"
      unfolding undo_ok_def by blast
    then obtain node where "index (inventory s) (fst (snd e)) = Some node"
      by blast
    from wf_index_found [OF wf this] show "find_product (inventory s) (fst (snd e)) \<noteq> None"
      by auto
  qed
  show "snd (undo_last s) \<noteq> ProductMissing"
  proof (cases "undo_stack s = []")
    case True
    then show ?thesis by (simp add: undo_last_def)
  next
    case False
    from inv False obtain us pid qty node pr where
      sh: "undo_stack s = us @ [(''add'', pid, qty)]"
        "find_product (inventory s) pid = Some (node, pr)"
        "map_of (cart s) pid = Some (reserved us pid + qty)" and "0 < qty"
      by (rule undo_last_shape)
    from undo_last_ok [OF sh] have "snd (undo_last s) = Undone qty (name pr)"
      by (simp only: snd_conv)
    then show ?thesis by simp
  qed
qed

theorem undo_never_misses_product_witness:
  "reachable rice_reserved
   \<and> undo_stack rice_reserved = [(''add'', 1, 10)]
   \<and> find_product (inventory rice_reserved) 1 \<noteq> None
   \<and> snd (undo_last rice_reserved) \<noteq> ProductMissing"
proof -
  have r: "reachable rice_reserved"
    unfolding rice_reserved_def rice_stocked_def
    by (rule reachable.add_to_cart [OF reachable.add_product [OF reachable.start]])
  have u: "undo_stack rice_reserved = [(''add'', 1, 10)]"
    by (simp add: eval_defs)
  from undo_never_misses_product [OF r] r u show ?thesis by simp
qed

section \<open>Totals and checkout\<close>





section \<open>Clearing the cart\<close>

text \<open>
  Claim C8: in every reachable state the handler that clears the cart adds, for every
  cart entry, the entry's quantity back to the quantity of that product (a product with
  no entry keeps its quantity, and no product appears or disappears); every product then
  has the quantity it has after undoing every reservation; and the cart and the undo
  stack are empty afterwards.
\<close>

theorem clear_cart_restores_stock:
  assumes "reachable s"
  shows "(\<forall>pid. find_product (inventory (on_clear_cart s)) pid =
            map_option (\<lambda>(node, pr). (node, pr\<lparr>quantity := quantity pr + dict_get (cart s) pid 0\<rparr>))
              (find_product (inventory s) pid))
         \<and> (\<forall>pid. find_product (inventory (on_clear_cart s)) pid
                    = find_product (inventory (spec_replay_undo s)) pid)
         \<and> cart (on_clear_cart s) = [] \<and> undo_stack (on_clear_cart s) = []
         \<and> cart (spec_replay_undo s) = [] \<and> undo_stack (spec_replay_undo s) = []"
proof -
  from assms have inv: "sys_inv s" by (rule reachable_sys_inv)
  then have wf: "wf_inventory (inventory s)" and d: "distinct (map fst (cart s))"
    and ba: "balanced (cart s) (undo_stack s)"
    by (simp_all add: sys_inv_def cart_ok_def)
  have iv: "inventory (on_clear_cart s) = restore_loop (inventory s) (cart s)"
    by (simp add: on_clear_cart_def clear_def compute_totals_def Let_def)
  have a: "find_product (inventory (on_clear_cart s)) pid =
             map_option (\<lambda>(node, pr). (node, pr\<lparr>quantity := quantity pr + dict_get (cart s) pid 0\<rparr>))
               (find_product (inventory s) pid)" for pid
    unfolding iv by (rule find_restore_loop [OF wf d])
  have b: "find_product (inventory (on_clear_cart s)) pid
             = find_product (inventory (spec_replay_undo s)) pid" for pid
    using spec_replay_undo_effect [OF inv, of pid] ba
    by (simp add: a balanced_def)
  have c: "cart (on_clear_cart s) = []" "undo_stack (on_clear_cart s) = []"
    by (simp_all add: on_clear_cart_def clear_def compute_totals_def Let_def)
  from a b c spec_replay_undo_effect [OF inv] show ?thesis
    by simp
qed

theorem clear_cart_restores_stock_witness:
  "reachable rice_reserved
   \<and> cart rice_reserved = [(1, 10)]
   \<and> find_product (inventory rice_reserved) 1 = Some (0, rice\<lparr>quantity := 90\<rparr>)
   \<and> find_product (inventory (on_clear_cart rice_reserved)) 1 = Some (0, rice)
   \<and> find_product (inventory (spec_replay_undo rice_reserved)) 1 = Some (0, rice)
   \<and> cart (on_clear_cart rice_reserved) = []
   \<and> undo_stack (on_clear_cart rice_reserved) = []"
proof -
  have r: "reachable rice_reserved"
    unfolding rice_reserved_def rice_stocked_def
    by (rule reachable.add_to_cart [OF reachable.add_product [OF reachable.start]])
  have c: "cart rice_reserved = [(1, 10)]"
    by (simp add: eval_defs)
  have f: "find_product (inventory rice_reserved) 1 = Some (0, rice\<lparr>quantity := 90\<rparr>)"
    by (simp add: eval_defs)
  have q: "rice\<lparr>quantity := 100\<rparr> = rice"
    by (simp add: rice_def)
  note t = clear_cart_restores_stock [OF r]
  from t have "find_product (inventory (on_clear_cart rice_reserved)) 1 =
      map_option (\<lambda>(node, pr). (node, pr\<lparr>quantity := quantity pr + dict_get (cart rice_reserved) 1 0\<rparr>))
        (find_product (inventory rice_reserved) 1)"
    by blast
  with c f q have a: "find_product (inventory (on_clear_cart rice_reserved)) 1 = Some (0, rice)"
    by (simp add: dict_get_def)
  from t have "find_product (inventory (on_clear_cart rice_reserved)) 1
                 = find_product (inventory (spec_replay_undo rice_reserved)) 1"
    by blast
  with a have b: "find_product (inventory (spec_replay_undo rice_reserved)) 1 = Some (0, rice)"
    by simp
  from t have "cart (on_clear_cart rice_reserved) = []"
    "undo_stack (on_clear_cart rice_reserved) = []"
    by blast+
  with r c f a b show ?thesis
    by blast
qed

section \<open>The low-stock heap\<close>

text \<open>
  Claim C9: in every reachable state, that is after any sequence of the operations, the
  low-stock heap holds for every product of the inventory a snapshot with the product's
  current quantity. The low-stock query leaves the heap's contents as a bag unchanged,
  and a query asked after it returns what it would have returned before it.
\<close>

theorem low_stock_heap_invariant:
  assumes "reachable s"
  shows "(\<forall>pid node pr. find_product (inventory s) pid = Some (node, pr) \<longrightarrow>
            (quantity pr, pid) \<in> set (low_stock_heap (inventory s)))
         \<and> mset (low_stock_heap (fst (k_lowest_stock (inventory s) k)))
             = mset (low_stock_heap (inventory s))
         \<and> snd (k_lowest_stock (fst (k_lowest_stock (inventory s) k)) k')
             = snd (k_lowest_stock (inventory s) k')"
proof (intro conjI)
  from assms have "heap_covers (inventory s)"
    by (simp add: reachable_sys_inv [unfolded sys_inv_def])
  then show "\<forall>pid node pr. find_product (inventory s) pid = Some (node, pr) \<longrightarrow>
               (quantity pr, pid) \<in> set (low_stock_heap (inventory s))"
    by (simp add: heap_covers_def)
  let ?iv = "fst (k_lowest_stock (inventory s) k)"
  show ms: "mset (low_stock_heap ?iv) = mset (low_stock_heap (inventory s))"
    by (rule k_lowest_stock_frame)
  have "current ?iv = current (inventory s)"
    by (rule current_frame) (simp_all add: k_lowest_stock_frame)
  moreover have "sort (low_stock_heap ?iv) = sort (low_stock_heap (inventory s))"
    using ms by (rule sort_mset_eq)
  ultimately show "snd (k_lowest_stock ?iv k') = snd (k_lowest_stock (inventory s) k')"
    by (simp only: k_lowest_stock_results)
qed

theorem low_stock_heap_invariant_witness:
  "reachable rice_reserved
   \<and> find_product (inventory rice_reserved) 1 = Some (0, rice\<lparr>quantity := 90\<rparr>)
   \<and> (90, 1) \<in> set (low_stock_heap (inventory rice_reserved))
   \<and> mset (low_stock_heap (fst (k_lowest_stock (inventory rice_reserved) 5)))
       = mset (low_stock_heap (inventory rice_reserved))
   \<and> snd (k_lowest_stock (fst (k_lowest_stock (inventory rice_reserved) 5)) 5)
       = snd (k_lowest_stock (inventory rice_reserved) 5)"
proof -
  have r: "reachable rice_reserved"
    unfolding rice_reserved_def rice_stocked_def
    by (rule reachable.add_to_cart [OF reachable.add_product [OF reachable.start]])
  have f: "find_product (inventory rice_reserved) 1 = Some (0, rice\<lparr>quantity := 90\<rparr>)"
    by (simp add: eval_defs)
  note t = low_stock_heap_invariant [OF r, of 5 5]
  from t have
    a: "\<forall>pid node pr. find_product (inventory rice_reserved) pid = Some (node, pr) \<longrightarrow>
            (quantity pr, pid) \<in> set (low_stock_heap (inventory rice_reserved))"
    by (rule conjunct1)
  from t have
    b: "mset (low_stock_heap (fst (k_lowest_stock (inventory rice_reserved) 5)))
             = mset (low_stock_heap (inventory rice_reserved))"
    by (rule conjunct2 [THEN conjunct1])
  from t have
    c: "snd (k_lowest_stock (fst (k_lowest_stock (inventory rice_reserved) 5)) 5)
             = snd (k_lowest_stock (inventory rice_reserved) 5)"
    by (rule conjunct2 [THEN conjunct2])
  from a f have "(quantity (rice\<lparr>quantity := 90\<rparr>), 1) \<in> set (low_stock_heap (inventory rice_reserved))"
    by blast
  then have "(90, 1) \<in> set (low_stock_heap (inventory rice_reserved))"
    by simp
  with r f b c show ?thesis by blast
qed

text \<open>
  Claim C1 says that \<open>k_lowest_stock\<close> returns distinct products. After reserving 10
  units of rice and undoing that, the heap holds two snapshots with the current quantity
  of rice; with rice (100 in stock) and dal (200 in stock) in the inventory, the query
  for the 2 lowest returns rice twice and leaves dal out.
\<close>

theorem k_lowest_stock_repeats_product:
  "to_list (inventory rice_returned) = [rice, dal]
   \<and> quantity rice < quantity dal
   \<and> snd (k_lowest_stock (inventory rice_returned) 2) = [rice, rice]"
  by (simp add: rice_returned_def rice_dal_stocked_def dal_def eval_defs to_list_def
      k_lowest_stock_def k_lowest_loop.simps)

end
